theory Spec2Isabelle
  imports Main
begin

section \<open>Python strings\<close>

text \<open>
  A Python \<open>str\<close> is modelled as a \<open>string\<close>: one \<open>char\<close> per code point, for the code
  points below 256 (ASCII and Latin-1).  The character classes below are those of
  \<open>str.isspace\<close> (used by \<open>str.strip\<close> and by the regular expression \<open>\s\<close>),
  of \<open>\d\<close> (on this range the ASCII digits) and of \<open>str.lower\<close>, on that range.
\<close>

definition whitespace :: "char list" where
  "whitespace =
     [CHR 0x09, CHR 0x0A, CHR 0x0B, CHR 0x0C, CHR 0x0D, CHR 0x1C, CHR 0x1D, CHR 0x1E,
      CHR 0x1F, CHR 0x20, CHR 0x85, CHR 0xA0]"

definition isspace :: "char \<Rightarrow> bool" where
  "isspace c = (c \<in> set whitespace)"

definition isdigit :: "char \<Rightarrow> bool" where
  "isdigit c = (c \<in> set ''0123456789'')"

definition uppercase :: "char list" where
  "uppercase = ''ABCDEFGHIJKLMNOPQRSTUVWXYZ'' @
     [CHR 0xC0, CHR 0xC1, CHR 0xC2, CHR 0xC3, CHR 0xC4, CHR 0xC5, CHR 0xC6, CHR 0xC7,
      CHR 0xC8, CHR 0xC9, CHR 0xCA, CHR 0xCB, CHR 0xCC, CHR 0xCD, CHR 0xCE, CHR 0xCF,
      CHR 0xD0, CHR 0xD1, CHR 0xD2, CHR 0xD3, CHR 0xD4, CHR 0xD5, CHR 0xD6,
      CHR 0xD8, CHR 0xD9, CHR 0xDA, CHR 0xDB, CHR 0xDC, CHR 0xDD, CHR 0xDE]"

definition lowercase :: "char list" where
  "lowercase = ''abcdefghijklmnopqrstuvwxyz'' @
     [CHR 0xE0, CHR 0xE1, CHR 0xE2, CHR 0xE3, CHR 0xE4, CHR 0xE5, CHR 0xE6, CHR 0xE7,
      CHR 0xE8, CHR 0xE9, CHR 0xEA, CHR 0xEB, CHR 0xEC, CHR 0xED, CHR 0xEE, CHR 0xEF,
      CHR 0xF0, CHR 0xF1, CHR 0xF2, CHR 0xF3, CHR 0xF4, CHR 0xF5, CHR 0xF6,
      CHR 0xF8, CHR 0xF9, CHR 0xFA, CHR 0xFB, CHR 0xFC, CHR 0xFD, CHR 0xFE]"

definition lower_char :: "char \<Rightarrow> char" where
  "lower_char c = (case map_of (zip uppercase lowercase) c of Some l \<Rightarrow> l | None \<Rightarrow> c)"

text \<open>\<open>s.lower()\<close>\<close>

definition lower :: "string \<Rightarrow> string" where
  "lower s = map lower_char s"

text \<open>\<open>s.strip()\<close> and \<open>s.strip("_")\<close>\<close>

definition strip_with :: "(char \<Rightarrow> bool) \<Rightarrow> string \<Rightarrow> string" where
  "strip_with p s = rev (dropWhile p (rev (dropWhile p s)))"

definition strip :: "string \<Rightarrow> string" where
  "strip s = strip_with isspace s"

text \<open>\<open>s.startswith(p)\<close>\<close>

fun startswith :: "string \<Rightarrow> string \<Rightarrow> bool" where
  "startswith s [] = True"
| "startswith [] (p # ps) = False"
| "startswith (c # cs) (p # ps) = (c = p \<and> startswith cs ps)"

text \<open>\<open>sub in s\<close>\<close>

fun contains :: "string \<Rightarrow> string \<Rightarrow> bool" where
  "contains sub [] = (sub = [])"
| "contains sub (c # cs) = (startswith (c # cs) sub \<or> contains sub cs)"

text \<open>\<open>s.split(d)\<close> for a one-character separator: empty pieces are kept.\<close>

fun split_on :: "char \<Rightarrow> string \<Rightarrow> string list" where
  "split_on d [] = [] # []"
| "split_on d (c # cs) =
     (if c = d then [] # split_on d cs
      else (case split_on d cs of [] \<Rightarrow> [c] # [] | p # ps \<Rightarrow> (c # p) # ps))"

text \<open>
  \<open>int(s)\<close> on a string drawn from the digits and \<open>?\<close>, the only strings this module
  converts: the value of a non-empty digit string, \<open>ValueError\<close> otherwise.  (The cap on
  the number of digits of recent interpreters, \<open>sys.int_max_str_digits\<close>, is not modelled.)
\<close>

datatype py_error = ValueError | IndexError | TypeError

definition digit_value :: "char \<Rightarrow> nat" where
  "digit_value c = of_char c - 48"

definition int_of_digits :: "string \<Rightarrow> nat" where
  "int_of_digits s = foldl (\<lambda>n c. 10 * n + digit_value c) 0 s"

definition py_int :: "string \<Rightarrow> py_error + int" where
  "py_int s = (if s \<noteq> [] \<and> list_all isdigit s then Inr (int (int_of_digits s)) else Inl ValueError)"

text \<open>\<open>xs[i]\<close>: a negative index counts from the end, an index out of range raises.\<close>

definition item :: "'a list \<Rightarrow> int \<Rightarrow> py_error + 'a" where
  "item xs i =
     (let j = (if i < 0 then int (length xs) + i else i)
      in if 0 \<le> j \<and> j < int (length xs) then Inr (xs ! nat j) else Inl IndexError)"

text \<open>The decimal numeral of a natural number, and the format \<open>{n:02d}\<close>.\<close>

definition digit_char :: "nat \<Rightarrow> char" where
  "digit_char d = ''0123456789'' ! d"

fun str_nat :: "nat \<Rightarrow> string" where
  "str_nat n = (if n < 10 then [digit_char n] else str_nat (n div 10) @ [digit_char (n mod 10)])"

declare str_nat.simps [simp del]

definition fmt02 :: "nat \<Rightarrow> string" where
  "fmt02 n = (let d = str_nat n in replicate (2 - length d) (CHR ''0'') @ d)"

section \<open>Column names: the rule chain of \<open>normalize_columns\<close>\<close>

definition isalnum_ascii :: "char \<Rightarrow> bool" where
  "isalnum_ascii c =
     (c \<in> set ''0123456789abcdefghijklmnopqrstuvwxyzABCDEFGHIJKLMNOPQRSTUVWXYZ'')"

text \<open>\<open>re.sub(r"[^0-9a-zA-Z]+", "_", s)\<close>: each maximal run outside the class becomes one underscore.\<close>

function sub_non_alnum :: "string \<Rightarrow> string" where
  "sub_non_alnum [] = []"
| "sub_non_alnum (c # cs) =
     (if isalnum_ascii c then c # sub_non_alnum cs
      else CHR ''_'' # sub_non_alnum (dropWhile (\<lambda>x. \<not> isalnum_ascii x) cs))"
  by pat_completeness auto
termination
  by (relation "measure length") (auto simp: less_Suc_eq_le length_dropWhile_le)

text \<open>The body of the loop over \<open>df.columns\<close>: the name given to the column \<open>col\<close>.\<close>

definition canonical_name :: "string \<Rightarrow> string" where
  "canonical_name col =
     (let col_clean = lower (strip col) in
      if startswith col_clean ''aboard'' then ''aboard''
      else if contains ''type'' col_clean then ''aircraft_type''
      else if startswith col_clean ''cn'' then ''cn_ln''
      else if col_clean = ''date'' then ''date''
      else if col_clean = ''detail_url'' then ''detail_url''
      else if contains ''fatalit'' col_clean then ''fatalities''
      else if contains ''flight'' col_clean then ''flight_no''
      else if col_clean \<in> set [''ground'', ''ground_fatalities''] then ''ground_fatalities''
      else if col_clean = ''location'' then ''location''
      else if contains ''operator'' col_clean then ''operator''
      else if contains ''registr'' col_clean then ''registration''
      else if col_clean = ''route'' then ''route''
      else if col_clean = ''summary'' then ''summary''
      else if col_clean = ''time'' then ''time''
      else if contains ''year_page_url'' col_clean then ''year_page_url''
      else (let tmp = strip_with (\<lambda>c. c = CHR ''_'') (sub_non_alnum col_clean)
            in if tmp = [] then col_clean else tmp))"

section \<open>The field parsers\<close>

subsection \<open>\<open>parse_fatalities\<close>\<close>

text \<open>\<open>re.search(r"(\d+)", s)\<close>: the leftmost maximal run of digits, if any.\<close>

definition search_digits :: "string \<Rightarrow> string option" where
  "search_digits s =
     (let r = dropWhile (\<lambda>c. \<not> isdigit c) s in if r = [] then None else Some (takeWhile isdigit r))"

text \<open>
  \<open>re.search(label + r"\s*([0-9?]+)", s, re.IGNORECASE)\<close> for a lower-case label: the
  group captured at the leftmost position where the pattern matches.  The classes
  \<open>\s\<close> and \<open>[0-9?]\<close> are disjoint, so at one position the greedy match is the only one.
\<close>

definition is_count_char :: "char \<Rightarrow> bool" where
  "is_count_char c = (isdigit c \<or> c = CHR ''?'')"

definition match_label :: "string \<Rightarrow> string \<Rightarrow> string option" where
  "match_label label s =
     (if lower (take (length label) s) = label
      then (let g = takeWhile is_count_char (dropWhile isspace (drop (length label) s))
            in if g = [] then None else Some g)
      else None)"

fun search_label :: "string \<Rightarrow> string \<Rightarrow> string option" where
  "search_label label [] = match_label label []"
| "search_label label (c # cs) =
     (case match_label label (c # cs) of Some g \<Rightarrow> Some g | None \<Rightarrow> search_label label cs)"

text \<open>The two labelled counts share their three lines of code.\<close>

definition labelled_count :: "string \<Rightarrow> string \<Rightarrow> py_error + int option" where
  "labelled_count label s =
     (case search_label label s of
        None \<Rightarrow> Inr None
      | Some g \<Rightarrow>
          if g \<noteq> ''?'' then (case py_int g of Inl e \<Rightarrow> Inl e | Inr n \<Rightarrow> Inr (Some n))
          else Inr None)"

text \<open>The argument is \<open>None\<close> where \<open>pd.isna(text)\<close> holds.\<close>

definition parse_fatalities :: "string option \<Rightarrow> py_error + (int option \<times> int option \<times> int option)" where
  "parse_fatalities text =
     (case text of
        None \<Rightarrow> Inr (None, None, None)
      | Some s \<Rightarrow>
          (case (case search_digits s of
                   None \<Rightarrow> Inr None
                 | Some g \<Rightarrow> (case py_int g of Inl e \<Rightarrow> Inl e | Inr n \<Rightarrow> Inr (Some n))) of
             Inl e \<Rightarrow> Inl e
           | Inr total_n \<Rightarrow>
               (case labelled_count ''passengers:'' s of
                  Inl e \<Rightarrow> Inl e
                | Inr pax \<Rightarrow>
                    (case labelled_count ''crew:'' s of
                       Inl e \<Rightarrow> Inl e
                     | Inr crew \<Rightarrow> Inr (total_n, pax, crew)))))"

subsection \<open>\<open>split_location\<close>\<close>

definition known_countries :: "string list" where
  "known_countries = [''England'', ''Germany'', ''France'', ''Belgium'', ''Italy'']"

definition split_location ::
  "string option \<Rightarrow> py_error + (string option \<times> string option \<times> string option)" where
  "split_location loc =
     (case loc of
        None \<Rightarrow> Inr (None, None, None)
      | Some l \<Rightarrow>
          (let s = strip l in
           if CHR '','' \<notin> set s then
             (if list_ex (\<lambda>ctry. contains ctry s)
                   [''Germany'', ''France'', ''Belgium'', ''Italy'', ''England'']
              then Inr (None, None, Some s)
              else Inr (Some s, None, None))
           else
             (let parts = map strip (filter (\<lambda>p. strip p \<noteq> []) (split_on (CHR '','') s)) in
              if length parts = 1 then
                (case item parts 0 of Inl e \<Rightarrow> Inl e | Inr p0 \<Rightarrow> Inr (Some p0, None, None))
              else if length parts = 2 then
                (case item parts 0 of
                   Inl e \<Rightarrow> Inl e
                 | Inr city_region \<Rightarrow>
                     (case item parts 1 of
                        Inl e \<Rightarrow> Inl e
                      | Inr last_part \<Rightarrow>
                          if last_part \<in> set known_countries
                          then Inr (Some city_region, None, Some last_part)
                          else Inr (Some city_region, Some last_part, None)))
              else
                (case item parts 0 of
                   Inl e \<Rightarrow> Inl e
                 | Inr city_region \<Rightarrow>
                     (case item parts 1 of
                        Inl e \<Rightarrow> Inl e
                      | Inr state \<Rightarrow>
                          (case item parts (- 1) of
                             Inl e \<Rightarrow> Inl e
                           | Inr country \<Rightarrow> Inr (Some city_region, Some state, Some country)))))))"

subsection \<open>\<open>_parse_time\<close>\<close>

text \<open>No statement of \<open>_parse_time\<close> can raise: \<open>int\<close> is applied to two digits.\<close>

definition parse_time :: "string option \<Rightarrow> string option" where
  "parse_time t =
     (case t of
        None \<Rightarrow> None
      | Some t' \<Rightarrow>
          (let s = strip t' in
           if s = ''?'' \<or> s = [] then None
           else
             (let s = filter isdigit s in
              if s = [] then None
              else if length s \<le> 2 then None
              else
                (let s = (if length s = 3 then CHR ''0'' # s
                          else if length s > 4 then drop (length s - 4) s
                          else s);
                     hh = int_of_digits (take 2 s);
                     mm = int_of_digits (take 2 (drop 2 s))
                 in if hh > 23 \<or> mm > 59 then None
                    else Some (fmt02 hh @ '':'' @ fmt02 mm)))))"

section \<open>Tables\<close>

text \<open>
  A cell of a \<open>DataFrame\<close>: a missing value (\<open>NaN\<close>, \<open>None\<close>, \<open>NaT\<close>), a \<open>str\<close>, an
  integer made by this module's own \<open>int(...)\<close>, or any other value made by a pandas
  conversion (a timestamp, a float).
\<close>

datatype 'v cell = NA | Text string | Number int | Lib 'v

text \<open>
  A frame is its row count and its columns in order, each a label with its cells.
  Labels may repeat: \<open>DataFrame.rename\<close> does not merge columns.
\<close>

record 'v frame =
  nrows :: nat
  columns :: "(string \<times> 'v cell list) list"

text \<open>
  The calls into pandas whose results this module does not compute itself:
  \<open>pd.to_datetime(series, errors="coerce")\<close>, \<open>pd.to_numeric(series, errors="coerce")\<close>
  and \<open>str(x)\<close> for a cell that is neither missing nor a \<open>str\<close>.
\<close>

record 'v pandas =
  to_datetime :: "'v cell list \<Rightarrow> 'v cell list"
  to_numeric :: "'v cell list \<Rightarrow> 'v cell list"
  str_of :: "'v cell \<Rightarrow> string"

definition labels :: "'v frame \<Rightarrow> string list" where
  "labels df = map fst (columns df)"

text \<open>
  \<open>df[k]\<close> for a label that is present: the column when one column bears the label,
  and otherwise a frame of several columns (\<open>None\<close>).  None of the uses below accepts
  such a frame: \<open>pd.to_datetime\<close> asks a frame for year, month and day columns
  (\<open>ValueError\<close>); a frame of several columns cannot be assigned to one label
  (\<open>ValueError\<close>); \<open>apply\<close> on a frame hands whole columns to the parser, whose
  test \<open>if pd.isna(...)\<close> then raises \<open>ValueError\<close>; \<open>pd.to_numeric\<close> rejects a frame
  (\<open>TypeError\<close>).
\<close>

definition series :: "string \<Rightarrow> 'v frame \<Rightarrow> 'v cell list option" where
  "series k df =
     (case filter (\<lambda>c. fst c = k) (columns df) of [c] \<Rightarrow> Some (snd c) | _ \<Rightarrow> None)"

text \<open>
  \<open>df[k] = values\<close>: the values are aligned on the frame's index; a new label is
  appended, an existing one is overwritten in place (in every column that bears it).
\<close>

definition align :: "nat \<Rightarrow> 'v cell list \<Rightarrow> 'v cell list" where
  "align n xs = take n xs @ replicate (n - length xs) NA"

definition setitem :: "string \<Rightarrow> 'v cell list \<Rightarrow> 'v frame \<Rightarrow> 'v frame" where
  "setitem k v df =
     (if k \<in> set (labels df)
      then df\<lparr>columns := map (\<lambda>c. if fst c = k then (k, align (nrows df) v) else c) (columns df)\<rparr>
      else df\<lparr>columns := columns df @ [(k, align (nrows df) v)]\<rparr>)"

text \<open>\<open>df.rename(columns=m)\<close>: each label that is a key of the dict is replaced.\<close>

definition rename :: "(string \<rightharpoonup> string) \<Rightarrow> 'v frame \<Rightarrow> 'v frame" where
  "rename m df =
     df\<lparr>columns := map (\<lambda>c. (case m (fst c) of None \<Rightarrow> fst c | Some l \<Rightarrow> l, snd c)) (columns df)\<rparr>"

text \<open>\<open>series.apply(f)\<close>: the first call that raises ends the pass.\<close>

fun apply_series :: "('a \<Rightarrow> py_error + 'b) \<Rightarrow> 'a list \<Rightarrow> py_error + 'b list" where
  "apply_series f [] = Inr []"
| "apply_series f (x # xs) =
     (case f x of
        Inl e \<Rightarrow> Inl e
      | Inr y \<Rightarrow> (case apply_series f xs of Inl e \<Rightarrow> Inl e | Inr ys \<Rightarrow> Inr (y # ys)))"

definition and_then :: "py_error + 'a \<Rightarrow> ('a \<Rightarrow> py_error + 'b) \<Rightarrow> py_error + 'b" where
  "and_then r f = (case r of Inl e \<Rightarrow> Inl e | Inr x \<Rightarrow> f x)"

section \<open>The cleaning pass\<close>

definition normalize_columns :: "'v frame \<Rightarrow> 'v frame" where
  "normalize_columns df =
     (let df = rename (fold (\<lambda>c m. m(c \<mapsto> strip c)) (labels df) Map.empty) df;
          col_map = fold (\<lambda>col m. m(col \<mapsto> canonical_name col)) (labels df) Map.empty
      in rename col_map df)"

definition parse_date_col :: "'v pandas \<Rightarrow> 'v frame \<Rightarrow> py_error + 'v frame" where
  "parse_date_col P df =
     (if ''date'' \<in> set (labels df) then
        (case series ''date'' df of
           None \<Rightarrow> Inl ValueError
         | Some xs \<Rightarrow> Inr (setitem ''date_parsed'' (to_datetime P xs) df))
      else Inr df)"

text \<open>What a parser receives for a cell: \<open>None\<close> where \<open>pd.isna\<close> holds, else \<open>str(x)\<close>.\<close>

definition cell_str :: "'v pandas \<Rightarrow> 'v cell \<Rightarrow> string option" where
  "cell_str P c = (case c of NA \<Rightarrow> None | Text s \<Rightarrow> Some s | _ \<Rightarrow> Some (str_of P c))"

definition text_cell :: "string option \<Rightarrow> 'v cell" where
  "text_cell r = (case r of None \<Rightarrow> NA | Some s \<Rightarrow> Text s)"

definition count_cell :: "int option \<Rightarrow> 'v cell" where
  "count_cell r = (case r of None \<Rightarrow> NA | Some n \<Rightarrow> Number n)"

definition parse_time_col :: "'v pandas \<Rightarrow> 'v frame \<Rightarrow> py_error + 'v frame" where
  "parse_time_col P df =
     (if ''time'' \<notin> set (labels df) then Inr df
      else
        (case series ''time'' df of
           None \<Rightarrow> Inl ValueError
         | Some xs \<Rightarrow>
             (let df = setitem ''time_raw'' xs df in
              case series ''time'' df of
                None \<Rightarrow> Inl ValueError
              | Some ys \<Rightarrow>
                  Inr (setitem ''time_hhmm'' (map (\<lambda>t. text_cell (parse_time (cell_str P t))) ys) df))))"

text \<open>The three blocks of \<open>clean_dataset\<close> after the date and the time.\<close>

definition numeric_col :: "'v pandas \<Rightarrow> string \<Rightarrow> 'v frame \<Rightarrow> py_error + 'v frame" where
  "numeric_col P k df =
     (case series k df of
        None \<Rightarrow> Inl TypeError
      | Some xs \<Rightarrow> Inr (setitem k (to_numeric P xs) df))"

definition split_fatalities :: "'v pandas \<Rightarrow> 'v frame \<Rightarrow> py_error + 'v frame" where
  "split_fatalities P df =
     (if ''fatalities'' \<in> set (labels df) then
        (case series ''fatalities'' df of
           None \<Rightarrow> Inl ValueError
         | Some xs \<Rightarrow>
             and_then (apply_series (\<lambda>x. parse_fatalities (cell_str P x)) xs) (\<lambda>totals.
               (let df = setitem ''fatalities_total'' (map (\<lambda>x. count_cell (fst x)) totals) df;
                    df = setitem ''fatalities_passengers''
                           (map (\<lambda>x. count_cell (fst (snd x))) totals) df;
                    df = setitem ''fatalities_crew'' (map (\<lambda>x. count_cell (snd (snd x))) totals) df
                in and_then (numeric_col P ''fatalities_total'' df) (\<lambda>df.
                   and_then (numeric_col P ''fatalities_passengers'' df) (\<lambda>df.
                   numeric_col P ''fatalities_crew'' df)))))
      else Inr df)"

definition split_locations :: "'v pandas \<Rightarrow> 'v frame \<Rightarrow> py_error + 'v frame" where
  "split_locations P df =
     (if ''location'' \<in> set (labels df) then
        (case series ''location'' df of
           None \<Rightarrow> Inl ValueError
         | Some xs \<Rightarrow>
             and_then (apply_series (\<lambda>x. split_location (cell_str P x)) xs) (\<lambda>loc_split.
               (let df = setitem ''location_city'' (map (\<lambda>x. text_cell (fst x)) loc_split) df;
                    df = setitem ''location_state'' (map (\<lambda>x. text_cell (fst (snd x))) loc_split) df
                in Inr (setitem ''location_country''
                          (map (\<lambda>x. text_cell (snd (snd x))) loc_split) df))))
      else Inr df)"

definition ground_numeric :: "'v pandas \<Rightarrow> 'v frame \<Rightarrow> py_error + 'v frame" where
  "ground_numeric P df =
     (if ''ground_fatalities'' \<in> set (labels df) then numeric_col P ''ground_fatalities'' df
      else Inr df)"

definition clean_dataset :: "'v pandas \<Rightarrow> 'v frame \<Rightarrow> py_error + 'v frame" where
  "clean_dataset P df =
     and_then (parse_date_col P (normalize_columns df)) (\<lambda>df.
     and_then (parse_time_col P df) (\<lambda>df.
     and_then (split_fatalities P df) (\<lambda>df.
     and_then (split_locations P df) (\<lambda>df.
     ground_numeric P df))))"

section \<open>The specification's own formulations\<close>

text \<open>
  The time rule in the specification's words: a missing, empty or \<open>?\<close> input is null; the
  non-digits are removed; at most two digits are null; three digits get one leading
  \<open>0\<close>; of more than four the last four are kept; the first two digits are the hour and
  the last two the minute, null when the hour exceeds 23 or the minute 59, and otherwise
  the answer is the four digits with a colon in the middle.
\<close>

definition two_digits :: "char \<Rightarrow> char \<Rightarrow> nat" where
  "two_digits a b = 10 * digit_value a + digit_value b"

definition TimeParser_spec :: "string option \<Rightarrow> string option" where
  "TimeParser_spec t =
     (case t of
        None \<Rightarrow> None
      | Some r \<Rightarrow>
          if r = [] \<or> r = ''?'' then None
          else
            (let d = filter isdigit r in
             if length d \<le> 2 then None
             else
               (case (if length d = 3 then CHR ''0'' # d
                      else if length d > 4 then rev (take 4 (rev d))
                      else d) of
                  [h1, h2, m1, m2] \<Rightarrow>
                    if two_digits h1 h2 > 23 \<or> two_digits m1 m2 > 59 then None
                    else Some [h1, h2, CHR '':'', m1, m2]
                | _ \<Rightarrow> None)))"



section \<open>Auxiliary notions\<close>

text \<open>A location text written as its comma-separated pieces.\<close>

fun join_commas :: "string list \<Rightarrow> string" where
  "join_commas [] = []"
| "join_commas [p] = p"
| "join_commas (p # q # ps) = p @ CHR '','' # join_commas (q # ps)"

text \<open>The names the pass writes: the derived columns, and the column it coerces in place.\<close>

definition derived_names :: "string list" where
  "derived_names =
     [''date_parsed'', ''time_raw'', ''time_hhmm'', ''fatalities_total'',
      ''fatalities_passengers'', ''fatalities_crew'', ''location_city'', ''location_state'',
      ''location_country'']"

definition written_names :: "string list" where
  "written_names = ''ground_fatalities'' # derived_names"

section \<open>Sample tables\<close>

text \<open>
  The library on the sample tables below, whose cells are missing values, the mark
  \<open>?\<close>, unsigned decimal texts and texts without a date: no date parses, and a text is
  numeric exactly when it is a digit string.
\<close>

definition sample_pandas :: "unit pandas" where
  "sample_pandas =
     \<lparr>to_datetime = map (\<lambda>c. NA),
      to_numeric = map (\<lambda>c. case c of
          Text s \<Rightarrow> (case py_int s of Inl e \<Rightarrow> NA | Inr n \<Rightarrow> Number n)
        | _ \<Rightarrow> c),
      str_of = (\<lambda>c. [])\<rparr>"


definition ground_table :: "unit frame" where
  "ground_table = \<lparr>nrows = 1, columns = [(''Ground'', [Text ''?''])]\<rparr>"

definition two_fatalities_table :: "unit frame" where
  "two_fatalities_table =
     \<lparr>nrows = 1,
      columns = [(''Fatalities'', [Text ''3'']), (''Total Fatalities'', [Text ''4''])]\<rparr>"

definition crash_table :: "unit frame" where
  "crash_table =
     \<lparr>nrows = 2,
      columns =
        [(''Date'', [Text ''?'', NA]),
         ('' Time'', [Text ''c 17:18'', Text ''700'']),
         (''Location'', [Text ''Near Paris, France'', Text ''Moscow'']),
         (''Summary'', [Text ''Crashed on approach.'', NA])]\<rparr>"


definition crash_clean :: "unit frame" where
  "crash_clean =
     \<lparr>nrows = 2,
      columns =
        [(''date'', [Text ''?'', NA]),
         (''time'', [Text ''c 17:18'', Text ''700'']),
         (''location'', [Text ''Near Paris, France'', Text ''Moscow'']),
         (''summary'', [Text ''Crashed on approach.'', NA]),
         (''date_parsed'', [NA, NA]),
         (''time_raw'', [Text ''c 17:18'', Text ''700'']),
         (''time_hhmm'', [Text ''17:18'', Text ''07:00'']),
         (''location_city'', [Text ''Near Paris'', Text ''Moscow'']),
         (''location_state'', [NA, NA]),
         (''location_country'', [Text ''France'', NA])]\<rparr>"

section \<open>Relations between tables\<close>

text \<open>
  \<open>keeps W d d'\<close>: the table \<open>d'\<close> has the rows of \<open>d\<close> and its columns in their places
  under their labels, with their cells unless the label is in \<open>W\<close>, followed by new columns
  whose labels are in \<open>W\<close>.  A table is well formed when every column has one cell per row.
\<close>

definition keeps :: "string list \<Rightarrow> 'v frame \<Rightarrow> 'v frame \<Rightarrow> bool" where
  "keeps W d d' \<longleftrightarrow>
     nrows d' = nrows d \<and> length (columns d) \<le> length (columns d')
     \<and> (\<forall>i<length (columns d).
           fst (columns d' ! i) = fst (columns d ! i)
           \<and> (fst (columns d ! i) \<notin> set W \<longrightarrow> snd (columns d' ! i) = snd (columns d ! i)))
     \<and> (\<forall>i. length (columns d) \<le> i \<and> i < length (columns d') \<longrightarrow> fst (columns d' ! i) \<in> set W)"

definition well_formed :: "'v frame \<Rightarrow> bool" where
  "well_formed d \<longleftrightarrow> (\<forall>c\<in>set (columns d). length (snd c) = nrows d)"

section \<open>Lemmas on strings\<close>

lemma strip_with_pad:
  assumes "list_all p w1" "list_all p w2"
  shows "strip_with p (w1 @ s @ w2) = strip_with p s"
proof -
  have l: "dropWhile p (w1 @ s @ w2) = dropWhile p (s @ w2)"
    using assms(1) by (intro dropWhile_append2) (simp add: list_all_iff)
  have r: "dropWhile p (rev w2 @ ys) = dropWhile p ys" for ys
    using assms(2) by (intro dropWhile_append2) (simp add: list_all_iff)
  show ?thesis
  proof (cases "list_all p s")
    case True
    then have e: "dropWhile p (s @ w2) = []" "dropWhile p s = []"
      using assms(2) by (simp_all add: list_all_iff)
    show ?thesis by (simp only: strip_with_def l e)
  next
    case False
    then have "dropWhile p (s @ w2) = dropWhile p s @ w2"
      by (auto simp: list_all_iff)
    then show ?thesis by (simp add: strip_with_def l r)
  qed
qed


lemma split_parts: "s = takeWhile p s @ strip_with p s @ rev (takeWhile p (rev (dropWhile p s)))"
proof -
  define y where "y = dropWhile p s"
  have "rev y = takeWhile p (rev y) @ dropWhile p (rev y)" by simp
  then have "y = rev (dropWhile p (rev y)) @ rev (takeWhile p (rev y))"
    by (metis rev_append rev_rev_ident)
  then have "dropWhile p s = strip_with p s @ rev (takeWhile p (rev (dropWhile p s)))"
    by (simp add: y_def strip_with_def)
  then show ?thesis by (metis takeWhile_dropWhile_id)
qed

lemma strip_with_dropWhile: "strip_with p (dropWhile p s) = strip_with p s"
  by (simp add: strip_with_def)

lemma strip_with_rstrip: "strip_with p (rev (dropWhile p (rev s))) = strip_with p s"
proof -
  have "s = rev (dropWhile p (rev s)) @ rev (takeWhile p (rev s))"
    by (metis rev_append rev_rev_ident takeWhile_dropWhile_id)
  moreover have "list_all p (rev (takeWhile p (rev s)))"
    by (auto simp: list_all_iff dest: set_takeWhileD)
  ultimately show ?thesis
    using strip_with_pad [of p "[]" "rev (takeWhile p (rev s))" "rev (dropWhile p (rev s))"]
    by simp
qed

lemma strip_with_idem: "strip_with p (strip_with p s) = strip_with p s"
proof -
  have "strip_with p (strip_with p s) = strip_with p (rev (dropWhile p (rev (dropWhile p s))))"
    by (simp only: strip_with_def [of p s])
  also have "\<dots> = strip_with p s"
    by (simp only: strip_with_rstrip strip_with_dropWhile)
  finally show ?thesis .
qed

lemma startswith_iff: "startswith s p \<longleftrightarrow> (\<exists>post. s = p @ post)"
  by (induction s p rule: startswith.induct) auto

lemma contains_iff: "contains sub s \<longleftrightarrow> (\<exists>pre post. s = pre @ sub @ post)"
proof (induction s)
  case Nil
  then show ?case by auto
next
  case (Cons c cs)
  show ?case
  proof
    assume "contains sub (c # cs)"
    then consider "startswith (c # cs) sub" | "contains sub cs" by auto
    then show "\<exists>pre post. c # cs = pre @ sub @ post"
    proof cases
      case 1
      then obtain post where "c # cs = sub @ post" by (auto simp: startswith_iff)
      then have "c # cs = [] @ sub @ post" by simp
      then show ?thesis by blast
    next
      case 2
      then obtain pre post where "cs = pre @ sub @ post" using Cons.IH by auto
      then have "c # cs = (c # pre) @ sub @ post" by simp
      then show ?thesis by blast
    qed
  next
    assume "\<exists>pre post. c # cs = pre @ sub @ post"
    then obtain pre post where e: "c # cs = pre @ sub @ post" by auto
    show "contains sub (c # cs)"
    proof (cases pre)
      case Nil
      with e have "startswith (c # cs) sub" unfolding startswith_iff by auto
      then show ?thesis by simp
    next
      case (Cons a pre')
      with e have "cs = pre' @ sub @ post" by simp
      then show ?thesis using Cons.IH by auto
    qed
  qed
qed

lemma dropWhile_keeps:
  assumes "sub \<noteq> []" "\<not> p (hd sub)"
  shows "\<exists>pre'. dropWhile p (pre @ sub @ post) = pre' @ sub @ post"
proof (cases "list_all p pre")
  case True
  then have "dropWhile p (pre @ sub @ post) = dropWhile p (sub @ post)"
    by (simp add: list_all_iff)
  also have "\<dots> = [] @ sub @ post" using assms by (cases sub) auto
  finally show ?thesis by blast
next
  case False
  then have "dropWhile p (pre @ sub @ post) = dropWhile p pre @ sub @ post"
    by (auto simp: list_all_iff)
  then show ?thesis by blast
qed

lemma contains_strip_with:
  assumes "sub \<noteq> []" "\<not> p (hd sub)" "\<not> p (last sub)"
  shows "contains sub (strip_with p s) = contains sub s"
proof
  assume "contains sub (strip_with p s)"
  then obtain pre post where "strip_with p s = pre @ sub @ post" by (auto simp: contains_iff)
  then have "s = (takeWhile p s @ pre) @ sub @ (post @ rev (takeWhile p (rev (dropWhile p s))))"
    using split_parts [of s p] by simp
  then show "contains sub s" unfolding contains_iff by blast
next
  assume "contains sub s"
  then obtain pre post where s: "s = pre @ sub @ post" by (auto simp: contains_iff)
  obtain pre' where 1: "dropWhile p s = pre' @ sub @ post"
    using dropWhile_keeps [of sub p pre post] assms s by blast
  have "rev sub \<noteq> []" "\<not> p (hd (rev sub))" using assms by (auto simp: hd_rev)
  with dropWhile_keeps [of "rev sub" p "rev post" "rev pre'"]
  obtain post' where "dropWhile p (rev post @ rev sub @ rev pre') = post' @ rev sub @ rev pre'"
    by blast
  then have "strip_with p s = pre' @ sub @ rev post'"
    by (simp add: strip_with_def 1)
  then show "contains sub (strip_with p s)" unfolding contains_iff by blast
qed

lemma comma_not_space: "\<not> isspace (CHR '','')"
  by (simp add: isspace_def whitespace_def)

lemma join_cons: "rest \<noteq> [] \<Longrightarrow> join_commas (a # rest) = a @ CHR '','' # join_commas rest"
  by (cases rest) auto

lemma join_snoc: "xs \<noteq> [] \<Longrightarrow> join_commas (xs @ [l]) = join_commas xs @ CHR '','' # l"
  by (induction xs rule: join_commas.induct) auto

lemma split_on_nonempty: "split_on d s \<noteq> []"
  by (induction s) (auto split: list.splits)

lemma split_on_free: "d \<notin> set a \<Longrightarrow> split_on d a = [a]"
  by (induction a) auto

lemma split_on_sep: "d \<notin> set a \<Longrightarrow> split_on d (a @ d # r) = a # split_on d r"
  by (induction a) auto

lemma split_on_join:
  "segs \<noteq> [] \<Longrightarrow> \<forall>seg\<in>set segs. CHR '','' \<notin> set seg
   \<Longrightarrow> split_on (CHR '','') (join_commas segs) = segs"
  by (induction segs rule: join_commas.induct) (auto simp: split_on_free split_on_sep)

lemma comma_in_join: "2 \<le> length segs \<Longrightarrow> CHR '','' \<in> set (join_commas segs)"
  by (induction segs rule: join_commas.induct) auto

lemma strip_join:
  assumes "2 \<le> length segs"
  shows "\<exists>segs'. strip (join_commas segs) = join_commas segs' \<and> length segs' = length segs
           \<and> map strip segs' = map strip segs \<and> (\<forall>i<length segs. set (segs' ! i) \<subseteq> set (segs ! i))"
proof -
  obtain a rest where segs: "segs = a # rest" using assms by (cases segs) auto
  have rest: "rest \<noteq> []" using assms segs by auto
  then obtain mid l where ml: "rest = mid @ [l]"
    by (metis rev_exhaust)
  define a' where "a' = dropWhile isspace a"
  define l' where "l' = rev (dropWhile isspace (rev l))"
  have 1: "dropWhile isspace (join_commas segs) = join_commas ((a' # mid) @ [l])"
    unfolding segs join_cons [OF rest] a'_def
    using rest ml by (simp add: dropWhile_append3 comma_not_space join_cons)
  have j: "join_commas ((a' # mid) @ [x]) = join_commas (a' # mid) @ CHR '','' # x" for x
    by (rule join_snoc) simp
  have 2: "rev (dropWhile isspace (rev (join_commas ((a' # mid) @ [l])))) = join_commas ((a' # mid) @ [l'])"
    unfolding j l'_def by (simp add: dropWhile_append3 comma_not_space)
  have 3: "strip a' = strip a" "strip l' = strip l"
    by (simp_all add: a'_def l'_def strip_def strip_with_dropWhile strip_with_rstrip)
  have 4: "set a' \<subseteq> set a" "set l' \<subseteq> set l"
    unfolding a'_def l'_def using set_dropWhileD by fastforce+
  have "strip (join_commas segs) = join_commas (a' # mid @ [l'])"
    using 1 2 by (simp add: strip_def strip_with_def)
  moreover have "map strip (a' # mid @ [l']) = map strip segs"
    by (simp add: segs ml 3)
  moreover have "\<forall>i<length segs. set ((a' # mid @ [l']) ! i) \<subseteq> set (segs ! i)"
    using 4 by (auto simp: segs ml nth_Cons nth_append split: nat.splits)
  ultimately show ?thesis
    by (intro exI [of _ "a' # mid @ [l']"]) (simp add: segs ml)
qed

lemma item_simps:
  "item (p # ps) 0 = Inr p" "item (p # q # ps) 1 = Inr q" "item [] i = Inl IndexError"
  "xs \<noteq> [] \<Longrightarrow> item xs (- 1) = Inr (last xs)"
  by (auto simp: item_def Let_def last_conv_nth nat_diff_distrib')

lemma list_shapes:
  obtains "ps = []" | p where "ps = [p]" | p q where "ps = [p, q]"
  | p q r rest where "ps = p # q # r # rest"
  by (cases ps; cases "tl ps"; cases "tl (tl ps)") auto

lemma location_of_parts:
  "(if length parts = 1 then
                (case item parts 0 of Inl e \<Rightarrow> Inl e | Inr p0 \<Rightarrow> Inr (Some p0, None, None))
              else if length parts = 2 then
                (case item parts 0 of
                   Inl e \<Rightarrow> Inl e
                 | Inr city_region \<Rightarrow>
                     (case item parts 1 of
                        Inl e \<Rightarrow> Inl e
                      | Inr last_part \<Rightarrow>
                          if last_part \<in> set known_countries
                          then Inr (Some city_region, None, Some last_part)
                          else Inr (Some city_region, Some last_part, None)))
              else
                (case item parts 0 of
                   Inl e \<Rightarrow> Inl e
                 | Inr city_region \<Rightarrow>
                     (case item parts 1 of
                        Inl e \<Rightarrow> Inl e
                      | Inr state \<Rightarrow>
                          (case item parts (- 1) of
                             Inl e \<Rightarrow> Inl e
                           | Inr country \<Rightarrow> Inr (Some city_region, Some state, Some country)))))
    = (case parts of
        [] \<Rightarrow> Inl IndexError
      | [p] \<Rightarrow> Inr (Some p, None, None)
      | [p, q] \<Rightarrow> (if q \<in> set known_countries then Inr (Some p, None, Some q)
                    else Inr (Some p, Some q, None))
      | p # q # r # rest \<Rightarrow> Inr (Some p, Some q, Some (last (r # rest))))"
  by (cases parts rule: list_shapes) (simp_all add: item_simps)

lemma split_location_join:
  assumes free: "\<forall>seg\<in>set segs. CHR '','' \<notin> set seg" and len: "2 \<le> length segs"
  shows "split_location (Some (join_commas segs)) =
     (case filter (\<lambda>p. p \<noteq> []) (map strip segs) of
        [] \<Rightarrow> Inl IndexError
      | [p] \<Rightarrow> Inr (Some p, None, None)
      | [p, q] \<Rightarrow> (if q \<in> set known_countries then Inr (Some p, None, Some q)
                    else Inr (Some p, Some q, None))
      | p # q # r # rest \<Rightarrow> Inr (Some p, Some q, Some (last (r # rest))))"
proof -
  obtain segs' where s: "strip (join_commas segs) = join_commas segs'"
    and l: "length segs' = length segs" and m: "map strip segs' = map strip segs"
    and sub: "\<forall>i<length segs. set (segs' ! i) \<subseteq> set (segs ! i)"
    using strip_join [OF len] by blast
  have free': "\<forall>seg\<in>set segs'. CHR '','' \<notin> set seg"
    using free sub l by (fastforce simp: in_set_conv_nth)
  have ne: "segs' \<noteq> []" using l len by auto
  have comma: "CHR '','' \<in> set (strip (join_commas segs))"
    unfolding s using l len by (simp add: comma_in_join)
  have parts: "map strip (filter (\<lambda>p. strip p \<noteq> []) (split_on (CHR '','') (strip (join_commas segs))))
        = filter (\<lambda>p. p \<noteq> []) (map strip segs)"
    unfolding s split_on_join [OF ne free'] m [symmetric] by (simp add: filter_map comp_def)
  show ?thesis
    unfolding split_location_def option.case Let_def parts location_of_parts using comma
    by simp
qed

lemma join_split_on: "join_commas (split_on (CHR '','') s) = s"
proof (induction s)
  case Nil
  then show ?case by simp
next
  case (Cons c cs)
  obtain p ps where ps: "split_on (CHR '','') cs = p # ps"
    using split_on_nonempty [of "CHR '',''" cs] by (cases "split_on (CHR '','') cs") auto
  with Cons show ?case by (cases ps) auto
qed

lemma split_on_pieces: "\<forall>seg\<in>set (split_on d s). d \<notin> set seg"
  by (induction s) (auto split: list.splits)

lemma split_on_length: "d \<in> set s \<Longrightarrow> 2 \<le> length (split_on d s)"
proof (induction s)
  case Nil
  then show ?case by simp
next
  case (Cons c cs)
  then show ?case
    using split_on_nonempty [of d cs] by (cases "split_on d cs") (auto split: list.splits)
qed

lemma split_location_parts:
  assumes "CHR '','' \<in> set loc"
  shows "split_location (Some loc) =
     (case filter (\<lambda>p. p \<noteq> []) (map strip (split_on (CHR '','') loc)) of
        [] \<Rightarrow> Inl IndexError
      | [p] \<Rightarrow> Inr (Some p, None, None)
      | [p, q] \<Rightarrow> (if q \<in> set known_countries then Inr (Some p, None, Some q)
                    else Inr (Some p, Some q, None))
      | p # q # r # rest \<Rightarrow> Inr (Some p, Some q, Some (last (r # rest))))"
  using split_location_join [OF split_on_pieces split_on_length [OF assms]]
  by (simp add: join_split_on)

lemma known_country_ends:
  "c \<in> set [''Germany'', ''France'', ''Belgium'', ''Italy'', ''England'']
   \<Longrightarrow> c \<noteq> [] \<and> \<not> isspace (hd c) \<and> \<not> isspace (last c)"
  by (auto simp: isspace_def whitespace_def)

lemma set_strip_with: "set (strip_with p s) \<subseteq> set s"
proof
  fix x assume "x \<in> set (strip_with p s)"
  then have "x \<in> set (dropWhile p (rev (dropWhile p s)))" by (simp add: strip_with_def)
  then have "x \<in> set (dropWhile p s)" using set_dropWhileD by fastforce
  then show "x \<in> set s" by (rule set_dropWhileD)
qed

lemma split_location_no_comma:
  assumes "CHR '','' \<notin> set loc"
  shows "split_location (Some loc) =
     (if \<exists>c\<in>set known_countries. \<exists>pre post. loc = pre @ c @ post
      then Inr (None, None, Some (strip loc)) else Inr (Some (strip loc), None, None))"
proof -
  have "set (strip loc) \<subseteq> set loc"
    unfolding strip_def by (rule set_strip_with)
  then have nc: "CHR '','' \<notin> set (strip loc)" using assms by auto
  have "list_ex (\<lambda>ctry. contains ctry (strip loc)) [''Germany'', ''France'', ''Belgium'', ''Italy'', ''England'']
     \<longleftrightarrow> (\<exists>c\<in>set [''Germany'', ''France'', ''Belgium'', ''Italy'', ''England'']. contains c loc)"
    unfolding list_ex_iff strip_def using known_country_ends
    by (metis contains_strip_with)
  also have "\<dots> \<longleftrightarrow> (\<exists>c\<in>set known_countries. \<exists>pre post. loc = pre @ c @ post)"
    unfolding contains_iff by (auto simp: known_countries_def)
  finally show ?thesis
    unfolding split_location_def option.case Let_def using nc by simp
qed

lemma split_location_two:
  assumes "CHR '','' \<notin> set a" "CHR '','' \<notin> set b" "strip a \<noteq> []" "strip b \<noteq> []"
  shows "split_location (Some (a @ '','' @ b)) =
     (if strip b \<in> set known_countries then Inr (Some (strip a), None, Some (strip b))
      else Inr (Some (strip a), Some (strip b), None))"
  using split_location_join [of "[a, b]"] assms by simp

section \<open>Lemmas on the time rule\<close>

lemma isdigit_not_space: "isspace c \<Longrightarrow> \<not> isdigit c"
  by (auto simp: isspace_def isdigit_def whitespace_def)

lemma filter_dropWhile_disjoint:
  "(\<And>x. q x \<Longrightarrow> \<not> p x) \<Longrightarrow> filter p (dropWhile q xs) = filter p xs"
  by (induction xs) auto

lemma filter_strip_with:
  assumes "\<And>x. q x \<Longrightarrow> \<not> p x"
  shows "filter p (strip_with q xs) = filter p xs"
proof -
  have "filter p (strip_with q xs) = rev (filter p (dropWhile q (rev (dropWhile q xs))))"
    by (simp add: strip_with_def rev_filter)
  also have "\<dots> = rev (filter p (rev (dropWhile q xs)))"
    using assms by (simp add: filter_dropWhile_disjoint)
  also have "\<dots> = filter p (dropWhile q xs)"
    by (simp add: rev_filter)
  finally show ?thesis
    using assms by (simp add: filter_dropWhile_disjoint)
qed

lemma filter_isdigit_strip: "filter isdigit (strip r) = filter isdigit r"
  unfolding strip_def by (rule filter_strip_with) (rule isdigit_not_space)

lemma digit_char_value: "isdigit c \<Longrightarrow> digit_value c < 10 \<and> digit_char (digit_value c) = c"
  by (auto simp: isdigit_def digit_value_def digit_char_def)

lemma str_nat_small: "n < 10 \<Longrightarrow> str_nat n = [digit_char n]"
  by (simp add: str_nat.simps)

lemma str_nat_two: "0 < x \<Longrightarrow> y < 10 \<Longrightarrow> x < 10 \<Longrightarrow> str_nat (10 * x + y) = [digit_char x, digit_char y]"
  by (subst str_nat.simps) (simp add: str_nat_small)

lemma fmt02_two_digits:
  assumes "isdigit a" "isdigit b"
  shows "fmt02 (two_digits a b) = [a, b]"
proof (cases "digit_value a = 0")
  case True
  then have "a = CHR ''0''"
    using digit_char_value [OF assms(1)] by (simp add: digit_char_def)
  with True show ?thesis
    using digit_char_value [OF assms(2)] by (simp add: fmt02_def two_digits_def str_nat_small)
next
  case False
  then show ?thesis
    using digit_char_value [OF assms(1)] digit_char_value [OF assms(2)]
    by (simp add: fmt02_def two_digits_def str_nat_two)
qed

lemma int_of_two_digits: "int_of_digits [a, b] = two_digits a b"
  by (simp add: int_of_digits_def two_digits_def)

lemma hhmm_of_digits:
  assumes "isdigit a" "isdigit b" "isdigit c" "isdigit d"
  shows "(let s = [a, b, c, d]; hh = int_of_digits (take 2 s); mm = int_of_digits (take 2 (drop 2 s))
          in if hh > 23 \<or> mm > 59 then None else Some (fmt02 hh @ '':'' @ fmt02 mm))
         = (if two_digits a b > 23 \<or> two_digits c d > 59 then None else Some [a, b, CHR '':'', c, d])"
  using assms by (simp add: int_of_two_digits fmt02_two_digits Let_def)



lemma last_four: "rev (take 4 (rev d)) = drop (length d - 4) d"
  by (simp add: take_rev)

lemma list4: "length d = 4 \<Longrightarrow> \<exists>a b c e. d = [a, b, c, e]"
proof -
  assume "length d = 4"
  then have "length d = Suc (Suc (Suc (Suc 0)))" by simp
  then show ?thesis by (auto simp add: length_Suc_conv)
qed


lemma parse_time_digits:
  assumes d: "d = filter isdigit r" and len: "2 < length d"
  shows "(let s = (if length d = 3 then CHR ''0'' # d
                          else if length d > 4 then drop (length d - 4) d
                          else d);
                     hh = int_of_digits (take 2 s);
                     mm = int_of_digits (take 2 (drop 2 s))
                 in if hh > 23 \<or> mm > 59 then None
                    else Some (fmt02 hh @ '':'' @ fmt02 mm))
       = (case (if length d = 3 then CHR ''0'' # d
                      else if length d > 4 then rev (take 4 (rev d))
                      else d) of
                  [h1, h2, m1, m2] \<Rightarrow>
                    if two_digits h1 h2 > 23 \<or> two_digits m1 m2 > 59 then None
                    else Some [h1, h2, CHR '':'', m1, m2]
                | _ \<Rightarrow> None)"
proof -
  define s where "s = (if length d = 3 then CHR ''0'' # d
                          else if length d > 4 then drop (length d - 4) d else d)"
  have digs: "\<forall>c \<in> set d. isdigit c" using d by auto
  have zero: "isdigit CHR ''0''" by (simp add: isdigit_def)
  have sdig: "\<forall>c \<in> set s. isdigit c"
    using digs zero by (auto simp: s_def dest: in_set_dropD)
  have "length s = 4" using len by (auto simp: s_def)
  then obtain a b c e where s: "s = [a, b, c, e]" using list4 by blast
  with sdig have "isdigit a" "isdigit b" "isdigit c" "isdigit e" by auto
  from hhmm_of_digits [OF this] show ?thesis
    unfolding last_four s_def [symmetric] s by simp
qed


lemma parse_time_refines: "parse_time t = TimeParser_spec t"
proof (cases t)
  case None
  then show ?thesis by (simp add: parse_time_def TimeParser_spec_def)
next
  case (Some r)
  define d where "d = filter isdigit r"
  have fd: "filter isdigit (strip r) = d" by (simp add: d_def filter_isdigit_strip)
  have q: "filter isdigit ''?'' = []" by (simp add: isdigit_def)
  show ?thesis
  proof (cases "2 < length d")
    case True
    have "strip r \<noteq> ''?''" using fd True q by auto
    moreover have "strip r \<noteq> []" using fd True by auto 
    moreover have "r \<noteq> []" using d_def True by auto 
    moreover have "r \<noteq> ''?''" using d_def True q by auto 
    moreover have "d \<noteq> []" "\<not> length d \<le> 2" using True by auto 
    ultimately show ?thesis
      unfolding Some parse_time_def TimeParser_spec_def option.case Let_def fd d_def [symmetric]
      using parse_time_digits [OF d_def True, unfolded Let_def] by simp
  next
    case False
    then have "d = [] \<or> length d \<le> 2" by auto
    then show ?thesis
      unfolding Some parse_time_def TimeParser_spec_def option.case Let_def fd d_def [symmetric]
      by auto
  qed
qed

lemma TimeParser_spec_shape:
  assumes "TimeParser_spec t = Some x"
  shows "\<exists>h1 h2 m1 m2. x = [h1, h2, CHR '':'', m1, m2] \<and> isdigit h1 \<and> isdigit h2 \<and> isdigit m1
           \<and> isdigit m2 \<and> two_digits h1 h2 \<le> 23 \<and> two_digits m1 m2 \<le> 59"
proof -
  from assms obtain r where t: "t = Some r"
    by (cases t) (auto simp: TimeParser_spec_def)
  define d where "d = filter isdigit r"
  define s where "s = (if length d = 3 then CHR ''0'' # d
                      else if length d > 4 then rev (take 4 (rev d)) else d)"
  have zero: "isdigit CHR ''0''" by (simp add: isdigit_def)
  have "\<forall>c\<in>set d. isdigit c" by (simp add: d_def)
  then have sdig: "\<forall>c\<in>set s. isdigit c"
    using zero by (auto simp: s_def dest: in_set_takeD)
  from assms have "(case s of
                  [h1, h2, m1, m2] \<Rightarrow>
                    if two_digits h1 h2 > 23 \<or> two_digits m1 m2 > 59 then None
                    else Some [h1, h2, CHR '':'', m1, m2]
                | _ \<Rightarrow> None) = Some x"
    unfolding t TimeParser_spec_def option.case Let_def d_def [symmetric] s_def [symmetric]
    by (simp split: if_splits)
  then obtain h1 h2 m1 m2 where "s = [h1, h2, m1, m2]"
    "\<not> (two_digits h1 h2 > 23 \<or> two_digits m1 m2 > 59)" "x = [h1, h2, CHR '':'', m1, m2]"
    by (auto split: list.splits if_splits)
  with sdig show ?thesis by auto
qed


section \<open>Examples and failures of the field parsers\<close>

text \<open>
  C6.  \<open>parse_fatalities\<close> on the examples of the specification: the text
  \<open>22   (passengers:?  crew:?)\<close> gives (22, null, null), the text
  \<open>1    (passengers:1  crew:0)\<close> gives (1, 1, 0), and a missing value gives
  (null, null, null).
\<close>

theorem parse_fatalities_examples:
  "parse_fatalities (Some ''22   (passengers:?  crew:?)'') = Inr (Some 22, None, None)
   \<and> parse_fatalities (Some ''1    (passengers:1  crew:0)'') = Inr (Some 1, Some 1, Some 0)
   \<and> parse_fatalities None = Inr (None, None, None)"
  by code_simp

text \<open>
  C1.  The field parsers do raise.  After the label \<open>passengers:\<close> the pattern
  captures digits and question marks together, only the capture \<open>?\<close> alone is set
  aside, and \<open>int\<close> raises \<open>ValueError\<close> on \<open>1?\<close>.  A location of commas and blanks has
  a comma and no non-empty part, and \<open>parts[0]\<close> raises \<open>IndexError\<close>.
\<close>

theorem field_parsers_raise:
  "parse_fatalities (Some ''5 (passengers:1? crew:0)'') = Inl ValueError
   \<and> split_location (Some '', '') = Inl IndexError"
  by code_simp

text \<open>
  C9.  A location made of blanks only has no comma, so it is returned whole after
  trimming: the city is the empty string, not null.
\<close>

theorem split_location_blank_city:
  "split_location (Some ''   '') = Inr (Some [], None, None)"
  by code_simp

text \<open>
  C5.  \<open>_parse_time\<close> computes the time rule of the specification, step for step:
  it agrees with \<open>TimeParser_spec\<close> on every input, so its result is null or two digits,
  a colon and two digits, with the hour at most 23 and the minute at most 59; and it
  gives \<open>07:00\<close> on \<open>700\<close>, \<open>23:45\<close> on \<open>2345\<close>, and null on \<open>?\<close>, \<open>99\<close> and \<open>2500\<close>.
\<close>

theorem parse_time_follows_spec:
  "parse_time t = TimeParser_spec t
   \<and> (parse_time t = None
      \<or> (\<exists>h1 h2 m1 m2. parse_time t = Some [h1, h2, CHR '':'', m1, m2] \<and> isdigit h1 \<and> isdigit h2
            \<and> isdigit m1 \<and> isdigit m2 \<and> two_digits h1 h2 \<le> 23 \<and> two_digits m1 m2 \<le> 59))
   \<and> parse_time (Some ''700'') = Some ''07:00''
   \<and> parse_time (Some ''2345'') = Some ''23:45''
   \<and> parse_time (Some ''?'') = None
   \<and> parse_time (Some ''99'') = None
   \<and> parse_time (Some ''2500'') = None"
proof -
  have ex: "parse_time (Some ''700'') = Some ''07:00''" "parse_time (Some ''2345'') = Some ''23:45''"
    "parse_time (Some ''?'') = None" "parse_time (Some ''99'') = None"
    "parse_time (Some ''2500'') = None"
    by code_simp+
  have shape: "parse_time t = None
      \<or> (\<exists>h1 h2 m1 m2. parse_time t = Some [h1, h2, CHR '':'', m1, m2] \<and> isdigit h1 \<and> isdigit h2
            \<and> isdigit m1 \<and> isdigit m2 \<and> two_digits h1 h2 \<le> 23 \<and> two_digits m1 m2 \<le> 59)"
  proof (cases "TimeParser_spec t")
    case None
    then show ?thesis by (simp add: parse_time_refines)
  next
    case (Some x)
    from TimeParser_spec_shape [OF this] Some show ?thesis
      by (simp add: parse_time_refines)
  qed
  show ?thesis using ex shape parse_time_refines by simp
qed

theorem parse_time_follows_spec_witness:
  "parse_time (Some ''c: 17:18'') = TimeParser_spec (Some ''c: 17:18'')
   \<and> parse_time (Some ''c: 17:18'') = Some ''17:18''"
proof -
  have "parse_time (Some ''c: 17:18'') = Some ''17:18''" by code_simp
  with parse_time_follows_spec [of "Some ''c: 17:18''"] show ?thesis by simp
qed

section \<open>Locations\<close>

text \<open>
  C8.  For a location with at least one comma, let the parts be the pieces between the
  commas, each trimmed, the empty ones dropped.  With exactly two parts the first is the
  city; the second is the country when it is one of England, Germany, France, Belgium,
  Italy, and the state otherwise.  With three or more parts the first is the city, the
  second the state and the last the country.  \<open>Near Paris, France\<close> gives the city
  \<open>Near Paris\<close>, no state and the country \<open>France\<close>.
\<close>

theorem split_location_commas:
  assumes "CHR '','' \<in> set loc"
    and "parts = filter (\<lambda>p. p \<noteq> []) (map strip (split_on (CHR '','') loc))"
  shows "(length parts = 2 \<longrightarrow>
            split_location (Some loc) =
              (if parts ! 1 \<in> set [''England'', ''Germany'', ''France'', ''Belgium'', ''Italy'']
               then Inr (Some (parts ! 0), None, Some (parts ! 1))
               else Inr (Some (parts ! 0), Some (parts ! 1), None)))
       \<and> (3 \<le> length parts \<longrightarrow>
            split_location (Some loc) = Inr (Some (parts ! 0), Some (parts ! 1), Some (last parts)))
       \<and> split_location (Some ''Near Paris, France'')
            = Inr (Some ''Near Paris'', None, Some ''France'')"
proof -
  have ex: "split_location (Some ''Near Paris, France'')
            = Inr (Some ''Near Paris'', None, Some ''France'')"
    by code_simp
  show ?thesis
    using split_location_parts [OF assms(1)] ex unfolding assms(2) [symmetric]
    by (cases parts rule: list_shapes) (simp_all add: known_countries_def)
qed

theorem split_location_commas_witness:
  "CHR '','' \<in> set ''Paris , Ile de France,, France''
   \<and> split_location (Some ''Paris , Ile de France,, France'')
       = Inr (Some ''Paris'', Some ''Ile de France'', Some ''France'')
   \<and> CHR '','' \<in> set ''Ohio ,USA''
   \<and> split_location (Some ''Ohio ,USA'') = Inr (Some ''Ohio'', Some ''USA'', None)"
proof -
  have c1: "CHR '','' \<in> set ''Paris , Ile de France,, France''" by simp
  have p1: "[''Paris'', ''Ile de France'', ''France'']
     = filter (\<lambda>p. p \<noteq> []) (map strip (split_on (CHR '','') ''Paris , Ile de France,, France''))"
    by code_simp
  have c2: "CHR '','' \<in> set ''Ohio ,USA''" by simp
  have p2: "[''Ohio'', ''USA'']
     = filter (\<lambda>p. p \<noteq> []) (map strip (split_on (CHR '','') ''Ohio ,USA''))"
    by code_simp
  show ?thesis
    using split_location_commas [OF c1 p1] split_location_commas [OF c2 p2] by simp
qed

text \<open>
  C10.  The known-country check is case-sensitive and differs between the branches.
  Without a comma it is containment: a text that contains one of the five names anywhere
  is the country as a whole (trimmed), and any other text is the city.  With two parts
  it is equality: a second part that is not exactly one of the five names is the state.
\<close>

theorem known_country_check:
  "(CHR '','' \<notin> set loc \<longrightarrow>
      split_location (Some loc) =
        (if \<exists>c\<in>set known_countries. \<exists>pre post. loc = pre @ c @ post
         then Inr (None, None, Some (strip loc)) else Inr (Some (strip loc), None, None)))
   \<and> (CHR '','' \<notin> set a \<and> CHR '','' \<notin> set b \<and> strip a \<noteq> [] \<and> strip b \<noteq> [] \<longrightarrow>
      split_location (Some (a @ '','' @ b)) =
        (if strip b \<in> set known_countries then Inr (Some (strip a), None, Some (strip b))
         else Inr (Some (strip a), Some (strip b), None)))
   \<and> split_location (Some ''Off the coast of France'')
        = Inr (None, None, Some ''Off the coast of France'')
   \<and> split_location (Some ''germany'') = Inr (Some ''germany'', None, None)
   \<and> split_location (Some ''Berlin, West Germany'') = Inr (Some ''Berlin'', Some ''West Germany'', None)
   \<and> split_location (Some ''Berlin, germany'') = Inr (Some ''Berlin'', Some ''germany'', None)"
proof -
  have ex: "split_location (Some ''Off the coast of France'')
        = Inr (None, None, Some ''Off the coast of France'')"
    "split_location (Some ''germany'') = Inr (Some ''germany'', None, None)"
    "split_location (Some ''Berlin, West Germany'') = Inr (Some ''Berlin'', Some ''West Germany'', None)"
    "split_location (Some ''Berlin, germany'') = Inr (Some ''Berlin'', Some ''germany'', None)"
    by code_simp+
  show ?thesis
    using ex split_location_no_comma [of loc] split_location_two [of a b] by simp
qed

theorem known_country_check_witness:
  "CHR '','' \<notin> set ''  Northern Italy ''
   \<and> split_location (Some ''  Northern Italy '') = Inr (None, None, Some ''Northern Italy'')
   \<and> CHR '','' \<notin> set ''Rome'' \<and> CHR '','' \<notin> set '' ITALY'' \<and> strip ''Rome'' \<noteq> []
   \<and> strip '' ITALY'' \<noteq> []
   \<and> split_location (Some (''Rome'' @ '','' @ '' ITALY'')) = Inr (Some ''Rome'', Some ''ITALY'', None)"
proof -
  have h: "CHR '','' \<notin> set ''  Northern Italy ''" "CHR '','' \<notin> set ''Rome''"
    "CHR '','' \<notin> set '' ITALY''"
    by simp_all
  have s: "strip ''Rome'' = ''Rome''" "strip '' ITALY'' = ''ITALY''"
    "strip ''  Northern Italy '' = ''Northern Italy''"
    by code_simp+
  have c: "\<exists>c\<in>set known_countries. \<exists>pre post. ''  Northern Italy '' = pre @ c @ post"
  proof -
    have "''  Northern Italy '' = ''  Northern '' @ ''Italy'' @ '' ''" by simp
    moreover have "''Italy'' \<in> set known_countries" by (simp add: known_countries_def)
    ultimately show ?thesis by blast
  qed
  have k: "''ITALY'' \<notin> set known_countries" by (simp add: known_countries_def)
  from known_country_check [of "''  Northern Italy ''" "''Rome''" "'' ITALY''"] h c
  have "split_location (Some ''  Northern Italy '') = Inr (None, None, Some (strip ''  Northern Italy ''))"
    by presburger
  moreover
  from known_country_check [of "''  Northern Italy ''" "''Rome''" "'' ITALY''"] h k
  have "split_location (Some (''Rome'' @ '','' @ '' ITALY'')) = Inr (Some ''Rome'', Some ''ITALY'', None)"
    unfolding s by simp
  ultimately show ?thesis using h unfolding s by simp
qed

section \<open>Column names\<close>

lemma fold_upd_lookup:
  "fold (\<lambda>c m. m(c \<mapsto> f c)) ks m0 k = (if k \<in> set ks then Some (f k) else m0 k)"
  by (induction ks arbitrary: m0) auto

lemma rename_fold:
  "rename (fold (\<lambda>c m. m(c \<mapsto> f c)) (labels df) Map.empty) df
     = df\<lparr>columns := map (\<lambda>c. (f (fst c), snd c)) (columns df)\<rparr>"
  by (simp add: rename_def fold_upd_lookup labels_def)

lemma strip_idem: "strip (strip s) = strip s"
  by (simp add: strip_def strip_with_idem)

lemma canonical_name_strip: "canonical_name (strip col) = canonical_name col"
  by (simp add: canonical_name_def strip_idem)

lemma normalize_columns_eq:
  "normalize_columns df = df\<lparr>columns := map (\<lambda>c. (canonical_name (fst c), snd c)) (columns df)\<rparr>"
  unfolding normalize_columns_def Let_def rename_fold
  by (simp add: comp_def canonical_name_strip)









text \<open>
  C7 (as amended).  When two headers are given the same name, \<open>normalize_columns\<close>
  raises nothing and keeps both columns, each in its place with its own cells, both under
  that name: the table has as many columns as before and its labels are not distinct.
\<close>

theorem normalize_columns_keeps_both:
  assumes "i < j" and "j < length (columns df)"
    and "canonical_name (fst (columns df ! i)) = canonical_name (fst (columns df ! j))"
  shows "length (columns (normalize_columns df)) = length (columns df)
     \<and> columns (normalize_columns df) ! i = (canonical_name (fst (columns df ! j)), snd (columns df ! i))
     \<and> columns (normalize_columns df) ! j = (canonical_name (fst (columns df ! j)), snd (columns df ! j))
     \<and> \<not> distinct (labels (normalize_columns df))"
proof -
  let ?out = "normalize_columns df"
  have len: "length (columns ?out) = length (columns df)"
    by (simp add: normalize_columns_eq)
  have at: "columns ?out ! k = (canonical_name (fst (columns df ! k)), snd (columns df ! k))"
    if "k < length (columns df)" for k
    using that by (simp add: normalize_columns_eq)
  have "labels ?out ! i = labels ?out ! j"
    using assms at [of i] at [of j] len by (simp add: labels_def)
  moreover have "i < length (labels ?out)" "j < length (labels ?out)" "i \<noteq> j"
    using assms len by (simp_all add: labels_def)
  ultimately have "\<not> distinct (labels ?out)"
    using nth_eq_iff_index_eq by blast
  then show ?thesis
    using len at [of i] at [of j] assms by simp
qed

theorem normalize_columns_keeps_both_witness:
  "(0::nat) < 1 \<and> 1 < length (columns two_fatalities_table)
   \<and> canonical_name (fst (columns two_fatalities_table ! 0))
       = canonical_name (fst (columns two_fatalities_table ! 1))
   \<and> columns (normalize_columns two_fatalities_table) ! 0 = (''fatalities'', [Text ''3''])
   \<and> columns (normalize_columns two_fatalities_table) ! 1 = (''fatalities'', [Text ''4''])"
proof -
  have h: "(0::nat) < 1" "1 < length (columns two_fatalities_table)" 
    by (simp_all add: two_fatalities_table_def)
  have c: "canonical_name (fst (columns two_fatalities_table ! 0)) = ''fatalities''"
    "canonical_name (fst (columns two_fatalities_table ! 1)) = ''fatalities''"
    by code_simp+
  have v: "snd (columns two_fatalities_table ! 0) = [Text ''3'']"
    "snd (columns two_fatalities_table ! 1) = [Text ''4'']"
    by (simp_all add: two_fatalities_table_def)
  from normalize_columns_keeps_both [OF h] c v h show ?thesis by simp
qed

text \<open>
  C7 as stated fails: the later column does not overwrite the earlier one.  Both
  \<open>Fatalities\<close> and \<open>Total Fatalities\<close> become \<open>fatalities\<close>, and the renamed table has
  two columns of that name.
\<close>

theorem colliding_headers_both_kept:
  "columns (normalize_columns two_fatalities_table)
     = [(''fatalities'', [Text ''3'']), (''fatalities'', [Text ''4''])]
   \<and> \<not> distinct (labels (normalize_columns two_fatalities_table))"
  by code_simp

section \<open>Lemmas on tables\<close>

lemma length_align: "length (align n xs) = n"
  by (simp add: align_def)



lemma nrows_setitem: "nrows (setitem k v d) = nrows d"
  by (simp add: setitem_def)



lemma length_setitem: "length (columns d) \<le> length (columns (setitem k v d))"
  by (simp add: setitem_def)

lemma well_formed_setitem: "well_formed d \<Longrightarrow> well_formed (setitem k v d)"
  by (auto simp: well_formed_def setitem_def length_align)

lemma keeps_refl: "keeps W d d"
  by (auto simp: keeps_def)

lemma keeps_trans:
  assumes "keeps W d d'" "keeps W d' d''"
  shows "keeps W d d''"
proof -
  have l: "length (columns d) \<le> length (columns d')" "length (columns d') \<le> length (columns d'')"
    using assms by (simp_all add: keeps_def)
  have old: "fst (columns d'' ! i) = fst (columns d ! i)
           \<and> (fst (columns d ! i) \<notin> set W \<longrightarrow> snd (columns d'' ! i) = snd (columns d ! i))"
    if "i < length (columns d)" for i
  proof -
    have "i < length (columns d')" using that l by simp
    then show ?thesis using assms that unfolding keeps_def by metis
  qed
  have new: "fst (columns d'' ! i) \<in> set W"
    if "length (columns d) \<le> i" "i < length (columns d'')" for i
  proof (cases "i < length (columns d')")
    case True
    then have "fst (columns d'' ! i) = fst (columns d' ! i)" "fst (columns d' ! i) \<in> set W"
      using assms that unfolding keeps_def by auto
    then show ?thesis by simp
  next
    case False
    then show ?thesis using assms(2) that unfolding keeps_def by auto
  qed
  show ?thesis
    unfolding keeps_def using assms l old new by (auto simp: keeps_def)
qed

lemma keeps_setitem: "k \<in> set W \<Longrightarrow> keeps W d (setitem k v d)"
  by (auto simp: keeps_def setitem_def nth_append)



lemma columns_setitem:
  "columns (setitem k v d) =
     (if k \<in> set (labels d)
      then map (\<lambda>c. if fst c = k then (k, align (nrows d) v) else c) (columns d)
      else columns d @ [(k, align (nrows d) v)])"
  by (simp add: setitem_def)








lemma and_then_Inr: "and_then r f = Inr y \<longleftrightarrow> (\<exists>x. r = Inr x \<and> f x = Inr y)"
  by (cases r) (auto simp: and_then_def)

lemma keeps_date: "parse_date_col P d = Inr d' \<Longrightarrow> keeps derived_names d d'"
  by (auto simp: parse_date_col_def derived_names_def keeps_refl keeps_setitem
           split: if_splits option.splits)

lemma keeps_time:
  assumes "parse_time_col P d = Inr d'"
  shows "keeps derived_names d d'"
proof (cases "''time'' \<in> set (labels d)")
  case False
  with assms show ?thesis by (simp add: parse_time_col_def keeps_refl)
next
  case True
  with assms obtain xs ys where
    "d' = setitem ''time_hhmm'' ys (setitem ''time_raw'' xs d)"
    by (auto simp: parse_time_col_def Let_def split: option.splits)
  moreover have "keeps derived_names d (setitem ''time_raw'' xs d)"
    by (rule keeps_setitem) (simp add: derived_names_def)
  moreover have "keeps derived_names (setitem ''time_raw'' xs d)
      (setitem ''time_hhmm'' ys (setitem ''time_raw'' xs d))"
    by (rule keeps_setitem) (simp add: derived_names_def)
  ultimately show ?thesis using keeps_trans by blast
qed

lemma keeps_numeric_col: "numeric_col P k d = Inr d' \<Longrightarrow> k \<in> set W \<Longrightarrow> keeps W d d'"
  by (auto simp: numeric_col_def keeps_setitem split: option.splits)

lemma keeps_fatalities:
  assumes "split_fatalities P d = Inr d'"
  shows "keeps derived_names d d'"
proof (cases "''fatalities'' \<in> set (labels d)")
  case False
  with assms show ?thesis by (simp add: split_fatalities_def keeps_refl)
next
  case True
  with assms obtain a b c d3 d4 d5 where
    n: "numeric_col P ''fatalities_total''
         (setitem ''fatalities_crew'' c (setitem ''fatalities_passengers'' b
            (setitem ''fatalities_total'' a d))) = Inr d4"
      "numeric_col P ''fatalities_passengers'' d4 = Inr d5"
      "numeric_col P ''fatalities_crew'' d5 = Inr d'"
    by (auto simp: split_fatalities_def Let_def and_then_Inr split: option.splits)
  have m: "''fatalities_total'' \<in> set derived_names" "''fatalities_passengers'' \<in> set derived_names"
    "''fatalities_crew'' \<in> set derived_names"
    by (simp_all add: derived_names_def)
  have "keeps derived_names d (setitem ''fatalities_total'' a d)"
    by (rule keeps_setitem) (rule m)
  then have "keeps derived_names d (setitem ''fatalities_passengers'' b (setitem ''fatalities_total'' a d))"
    using keeps_setitem [OF m(2)] keeps_trans by blast
  then have "keeps derived_names d (setitem ''fatalities_crew'' c
      (setitem ''fatalities_passengers'' b (setitem ''fatalities_total'' a d)))"
    using keeps_setitem [OF m(3)] keeps_trans by blast
  then have "keeps derived_names d d4"
    using keeps_numeric_col [OF n(1) m(1)] keeps_trans by blast
  then have "keeps derived_names d d5"
    using keeps_numeric_col [OF n(2) m(2)] keeps_trans by blast
  then show ?thesis
    using keeps_numeric_col [OF n(3) m(3)] keeps_trans by blast
qed

lemma keeps_locations:
  assumes "split_locations P d = Inr d'"
  shows "keeps derived_names d d'"
proof (cases "''location'' \<in> set (labels d)")
  case False
  with assms show ?thesis by (simp add: split_locations_def keeps_refl)
next
  case True
  with assms obtain a b c where
    d': "d' = setitem ''location_country'' c (setitem ''location_state'' b
            (setitem ''location_city'' a d))"
    by (auto simp: split_locations_def Let_def and_then_Inr split: option.splits)
  have m: "''location_city'' \<in> set derived_names" "''location_state'' \<in> set derived_names"
    "''location_country'' \<in> set derived_names"
    by (simp_all add: derived_names_def)
  have "keeps derived_names d (setitem ''location_city'' a d)"
    by (rule keeps_setitem) (rule m)
  then have "keeps derived_names d (setitem ''location_state'' b (setitem ''location_city'' a d))"
    using keeps_setitem [OF m(2)] keeps_trans by blast
  then show ?thesis
    unfolding d' using keeps_setitem [OF m(3)] keeps_trans by blast
qed

lemma series_Some_nth:
  assumes "series k d = Some xs" "i < length (columns d)" "fst (columns d ! i) = k"
  shows "snd (columns d ! i) = xs"
proof -
  from assms(1) obtain c where c: "filter (\<lambda>c. fst c = k) (columns d) = [c]" "snd c = xs"
    by (auto simp: series_def split: list.splits)
  have "columns d ! i \<in> set (filter (\<lambda>c. fst c = k) (columns d))"
    using assms(2,3) by simp
  with c show ?thesis by simp
qed

lemma ground_numeric_effect:
  assumes "ground_numeric P d = Inr d'"
  shows "nrows d' = nrows d \<and> length (columns d') = length (columns d)
     \<and> (\<forall>i<length (columns d).
           fst (columns d' ! i) = fst (columns d ! i)
           \<and> (fst (columns d ! i) \<noteq> ''ground_fatalities'' \<longrightarrow> snd (columns d' ! i) = snd (columns d ! i))
           \<and> (fst (columns d ! i) = ''ground_fatalities'' \<longrightarrow>
                snd (columns d' ! i) = align (nrows d) (to_numeric P (snd (columns d ! i)))))"
proof (cases "''ground_fatalities'' \<in> set (labels d)")
  case False
  then have "\<forall>i<length (columns d). fst (columns d ! i) \<noteq> ''ground_fatalities''"
    unfolding labels_def by (metis length_map nth_map nth_mem)
  with False assms show ?thesis by (auto simp: ground_numeric_def)
next
  case True
  with assms obtain xs where xs: "series ''ground_fatalities'' d = Some xs"
    and d': "d' = setitem ''ground_fatalities'' (to_numeric P xs) d"
    by (auto simp: ground_numeric_def numeric_col_def split: option.splits)
  show ?thesis
    unfolding d' using True series_Some_nth [OF xs]
    by (auto simp: nrows_setitem columns_setitem)
qed


lemma well_formed_steps:
  "parse_date_col P d = Inr d' \<Longrightarrow> well_formed d \<Longrightarrow> well_formed d'"
  "parse_time_col P d = Inr d' \<Longrightarrow> well_formed d \<Longrightarrow> well_formed d'"
  "numeric_col P k d = Inr d' \<Longrightarrow> well_formed d \<Longrightarrow> well_formed d'"
  "split_locations P d = Inr d' \<Longrightarrow> well_formed d \<Longrightarrow> well_formed d'"
  "ground_numeric P d = Inr d' \<Longrightarrow> well_formed d \<Longrightarrow> well_formed d'"
  by (auto simp: parse_date_col_def parse_time_col_def numeric_col_def split_locations_def
        ground_numeric_def Let_def and_then_Inr well_formed_setitem
      split: if_splits option.splits)

lemma well_formed_fatalities:
  assumes "split_fatalities P d = Inr d'" "well_formed d"
  shows "well_formed d'"
proof (cases "''fatalities'' \<in> set (labels d)")
  case False
  with assms show ?thesis by (simp add: split_fatalities_def)
next
  case True
  with assms obtain a b c d4 d5 where
    n: "numeric_col P ''fatalities_total''
         (setitem ''fatalities_crew'' c (setitem ''fatalities_passengers'' b
            (setitem ''fatalities_total'' a d))) = Inr d4"
      "numeric_col P ''fatalities_passengers'' d4 = Inr d5"
      "numeric_col P ''fatalities_crew'' d5 = Inr d'"
    by (auto simp: split_fatalities_def Let_def and_then_Inr split: option.splits)
  have "well_formed (setitem ''fatalities_crew'' c (setitem ''fatalities_passengers'' b
            (setitem ''fatalities_total'' a d)))"
    using assms(2) by (intro well_formed_setitem)
  then show ?thesis
    using n well_formed_steps(3) by blast
qed

lemma well_formed_normalize: "well_formed d \<Longrightarrow> well_formed (normalize_columns d)"
  by (auto simp: well_formed_def normalize_columns_eq)



















section \<open>The cleaning pass as a whole\<close>

text \<open>
  C3 (as amended).  Whenever the pass returns, the output has the rows of the input
  (and one cell per row in every column, if the input has); every input column is in
  its place under its canonical name; its cells are unchanged unless that name is one
  the pass writes (a derived name, or \<open>ground_fatalities\<close>); a column named
  \<open>ground_fatalities\<close> holds the numeric coercion of its raw cells; and every column after
  the input's columns bears a derived name.
\<close>

theorem clean_dataset_frame:
  assumes "clean_dataset P df = Inr out"
  shows "nrows out = nrows df
     \<and> ((\<forall>c\<in>set (columns df). length (snd c) = nrows df)
          \<longrightarrow> (\<forall>c\<in>set (columns out). length (snd c) = nrows out))
     \<and> length (columns df) \<le> length (columns out)
     \<and> (\<forall>i<length (columns df).
          fst (columns out ! i) = canonical_name (fst (columns df ! i))
          \<and> (canonical_name (fst (columns df ! i)) \<notin> set written_names
                \<longrightarrow> snd (columns out ! i) = snd (columns df ! i))
          \<and> (canonical_name (fst (columns df ! i)) = ''ground_fatalities''
                \<longrightarrow> snd (columns out ! i) = align (nrows df) (to_numeric P (snd (columns df ! i)))))
     \<and> (\<forall>i. length (columns df) \<le> i \<and> i < length (columns out)
          \<longrightarrow> fst (columns out ! i) \<in> set derived_names)"
proof -
  let ?d0 = "normalize_columns df"
  from assms obtain d1 d2 d3 d4 where steps:
    "parse_date_col P ?d0 = Inr d1" "parse_time_col P d1 = Inr d2"
    "split_fatalities P d2 = Inr d3" "split_locations P d3 = Inr d4"
    "ground_numeric P d4 = Inr out"
    unfolding clean_dataset_def and_then_Inr by blast
  have k: "keeps derived_names ?d0 d4"
    using keeps_date [OF steps(1)] keeps_time [OF steps(2)] keeps_fatalities [OF steps(3)]
      keeps_locations [OF steps(4)] keeps_trans by blast
  note g = ground_numeric_effect [OF steps(5)]
  have n0: "nrows ?d0 = nrows df" "length (columns ?d0) = length (columns df)"
    by (simp_all add: normalize_columns_eq)
  have c0: "columns ?d0 ! i = (canonical_name (fst (columns df ! i)), snd (columns df ! i))"
    if "i < length (columns df)" for i
    using that by (simp add: normalize_columns_eq)
  have rows: "nrows out = nrows df"
    using k g n0 by (simp add: keeps_def)
  have wf: "(\<forall>c\<in>set (columns df). length (snd c) = nrows df)
          \<longrightarrow> (\<forall>c\<in>set (columns out). length (snd c) = nrows out)"
  proof
    assume "\<forall>c\<in>set (columns df). length (snd c) = nrows df"
    then have "well_formed df" by (simp add: well_formed_def)
    then have "well_formed out"
      using steps well_formed_normalize well_formed_steps well_formed_fatalities by blast
    then show "\<forall>c\<in>set (columns out). length (snd c) = nrows out"
      by (simp add: well_formed_def)
  qed
  have len: "length (columns df) \<le> length (columns out)"
    using k g n0 by (simp add: keeps_def)
  have old: "fst (columns out ! i) = canonical_name (fst (columns df ! i))
          \<and> (canonical_name (fst (columns df ! i)) \<notin> set written_names
                \<longrightarrow> snd (columns out ! i) = snd (columns df ! i))
          \<and> (canonical_name (fst (columns df ! i)) = ''ground_fatalities''
                \<longrightarrow> snd (columns out ! i) = align (nrows df) (to_numeric P (snd (columns df ! i))))"
    if i: "i < length (columns df)" for i
  proof -
    have i0: "i < length (columns ?d0)" using i n0 by simp
    then have i4: "i < length (columns d4)" using k by (simp add: keeps_def)
    have f4: "fst (columns d4 ! i) = canonical_name (fst (columns df ! i))"
      using k i0 c0 [OF i] by (simp add: keeps_def)
    have s4: "snd (columns d4 ! i) = snd (columns df ! i)"
      if "canonical_name (fst (columns df ! i)) \<notin> set derived_names"
      using k i0 c0 [OF i] that by (simp add: keeps_def)
    have n4: "nrows d4 = nrows df" using k n0 by (simp add: keeps_def)
    have gd: "''ground_fatalities'' \<notin> set derived_names" by (simp add: derived_names_def)
    show ?thesis
      using g i4 f4 s4 n4 gd by (auto simp: written_names_def)
  qed
  have new: "fst (columns out ! i) \<in> set derived_names"
    if "length (columns df) \<le> i \<and> i < length (columns out)" for i
  proof -
    have "length (columns ?d0) \<le> i" "i < length (columns d4)" using that n0 g by simp_all
    then have "fst (columns d4 ! i) \<in> set derived_names" using k by (simp add: keeps_def)
    then show ?thesis using g \<open>i < length (columns d4)\<close> by simp
  qed
  show ?thesis using rows wf len old new by blast
qed

theorem clean_dataset_frame_witness:
  "clean_dataset sample_pandas crash_table = Inr crash_clean
   \<and> nrows crash_clean = nrows crash_table
   \<and> columns crash_clean ! 3 = (''summary'', snd (columns crash_table ! 3))
   \<and> fst (columns crash_clean ! 4) \<in> set derived_names"
proof -
  have 1: "clean_dataset sample_pandas crash_table = Inr crash_clean" by code_simp
  have 2: "canonical_name (fst (columns crash_table ! 3)) = ''summary''" by code_simp
  have 3: "''summary'' \<notin> set written_names"
    by (simp add: written_names_def derived_names_def)
  have 4: "length (columns crash_table) = 4" "length (columns crash_clean) = 10"
    by (simp_all add: crash_table_def crash_clean_def)
  from clean_dataset_frame [OF 1] 2 3 4
  have "nrows crash_clean = nrows crash_table"
    "fst (columns crash_clean ! 3) = ''summary''"
    "snd (columns crash_clean ! 3) = snd (columns crash_table ! 3)"
    "fst (columns crash_clean ! 4) \<in> set derived_names"
    by auto
  with 1 show ?thesis by (simp add: prod_eq_iff)
qed

text \<open>
  C3 as stated fails for \<open>ground_fatalities\<close>: the raw mark \<open>?\<close> of the column
  \<open>Ground\<close> is replaced by a missing value.
\<close>

theorem ground_fatalities_coerced:
  "columns ground_table = [(''Ground'', [Text ''?''])]
   \<and> clean_dataset sample_pandas ground_table
       = Inr \<lparr>nrows = 1, columns = [(''ground_fatalities'', [NA])]\<rparr>"
  by code_simp




end
